theory Spec2Isabelle
  imports Main "HOL-Library.AList"
begin

section \<open>JavaScript strings\<close>

text \<open>
  A JavaScript string is a sequence of UTF-16 code units and \<open>length\<close> counts code units.
  The model is \<^typ>\<open>string\<close>, one \<^typ>\<open>char\<close> per code unit, which covers the code units
  \<open>0x00\<close> to \<open>0xFF\<close> (Latin-1). On that range \<open>String.prototype.trim\<close> and the regular
  expression class \<open>\s\<close> remove exactly the seven characters of \<open>isWhiteSpace\<close>, and
  \<open>toLowerCase\<close> maps \<open>A-Z\<close>, \<open>0xC0-0xD6\<close> and \<open>0xD8-0xDE\<close> to the code unit 32 above.
\<close>

definition isWhiteSpace :: "char \<Rightarrow> bool" where
  "isWhiteSpace c \<longleftrightarrow>
     c = CHR 0x09 \<or> c = CHR 0x0A \<or> c = CHR 0x0B \<or> c = CHR 0x0C \<or> c = CHR 0x0D \<or>
     c = CHR 0x20 \<or> c = CHR 0xA0"

definition trim :: "string \<Rightarrow> string" where
  "trim s = rev (dropWhile isWhiteSpace (rev (dropWhile isWhiteSpace s)))"

definition isUpperCase :: "char \<Rightarrow> bool" where
  "isUpperCase c \<longleftrightarrow>
     (let n = (of_char c :: nat)
      in (65 \<le> n \<and> n \<le> 90) \<or> (192 \<le> n \<and> n \<le> 222 \<and> n \<noteq> 215))"

definition toLowerCaseChar :: "char \<Rightarrow> char" where
  "toLowerCaseChar c =
     (if isUpperCase c
      then (case c of Char b0 b1 b2 b3 b4 b5 b6 b7 \<Rightarrow> Char b0 b1 b2 b3 b4 True b6 b7)
      else c)"

definition toLowerCase :: "string \<Rightarrow> string" where
  "toLowerCase s = map toLowerCaseChar s"

text \<open>The character class \<open>[a-z0-9]\<close>.\<close>

definition isLowerAlnum :: "char \<Rightarrow> bool" where
  "isLowerAlnum c \<longleftrightarrow>
     (let n = (of_char c :: nat) in (97 \<le> n \<and> n \<le> 122) \<or> (48 \<le> n \<and> n \<le> 57))"

text \<open>\<open>Array.prototype.join\<close>.\<close>

fun join :: "string \<Rightarrow> string list \<Rightarrow> string" where
  "join sep [] = []"
| "join sep [x] = x"
| "join sep (x # y # ys) = x @ sep @ join sep (y # ys)"

text \<open>
  \<open>s.split(/c{n,}/)\<close> for a character class \<open>c\<close> and a greedy repetition of at least \<open>n \<ge> 1\<close>:
  every maximal run of at least \<open>n\<close> separator characters is one separator, a shorter run
  stays in the piece, and the pieces before, between and after the separators are
  returned (empty pieces included; the empty string gives one empty piece).
  \<open>splitRuns\<close> carries the piece being read in \<open>cur\<close>.
\<close>

function splitRuns :: "(char \<Rightarrow> bool) \<Rightarrow> nat \<Rightarrow> string \<Rightarrow> string \<Rightarrow> string list" where
  "splitRuns sep n cur [] = [cur]"
| "splitRuns sep n cur (c # cs) =
     (if sep c \<and> n \<le> Suc (length (takeWhile sep cs))
      then cur # splitRuns sep n [] (dropWhile sep cs)
      else splitRuns sep n (cur @ [c]) cs)"
  by pat_completeness auto
termination
  by (relation "measure (\<lambda>(sep, n, cur, s). length s)")
     (auto simp: length_dropWhile_le less_Suc_eq_le)

text \<open>\<open>s.split(/\n\n+/)\<close> and \<open>s.split(/\s+/)\<close>.\<close>

definition splitParagraphs :: "string \<Rightarrow> string list" where
  "splitParagraphs s = splitRuns (\<lambda>c. c = CHR 0x0A) 2 [] s"

definition splitWhitespace :: "string \<Rightarrow> string list" where
  "splitWhitespace s = splitRuns isWhiteSpace 1 [] s"

section \<open>Output budget (index.ts)\<close>

definition truncationMarker :: string where
  "truncationMarker = [CHR 0x0A, CHR 0x0A] @ ''... (truncated)''"

definition truncateMarkdown :: "string \<Rightarrow> nat \<Rightarrow> string" where
  "truncateMarkdown markdown limit =
     (if length markdown \<le> limit then markdown
      else take limit markdown @ truncationMarker)"

text \<open>The default value of the parameter \<open>limit\<close>; no call site passes another.\<close>

definition DEFAULT_LIMIT :: nat where
  "DEFAULT_LIMIT = 40000"

section \<open>Extraction merge (PdfParser.ts)\<close>

definition normalizeForComparison :: "string \<Rightarrow> string" where
  "normalizeForComparison text = take 100 (filter isLowerAlnum (toLowerCase text))"

text \<open>
  The paragraphs of a text: \<open>split(/\n\n+/).filter((p) => p.trim())\<close>. A string is truthy
  when it is not empty.
\<close>

definition paragraphs :: "string \<Rightarrow> string list" where
  "paragraphs content = filter (\<lambda>p. trim p \<noteq> []) (splitParagraphs content)"

text \<open>The local \<open>uniqueOcr\<close> of \<open>deduplicateContent\<close>, with \<open>seen\<close> the set built from \<open>paragraphs1\<close>.\<close>

definition uniqueOcr :: "string \<Rightarrow> string \<Rightarrow> string list" where
  "uniqueOcr textContent ocrContent =
     (let paragraphs1 = paragraphs textContent;
          paragraphs2 = paragraphs ocrContent;
          seen = set (map normalizeForComparison paragraphs1)
      in filter (\<lambda>p. let normalized = normalizeForComparison p
                     in 20 < length normalized \<and> normalized \<notin> seen) paragraphs2)"

definition additionalContentHeader :: string where
  "additionalContentHeader =
     [CHR 0x0A, CHR 0x0A] @ ''---'' @ [CHR 0x0A] @
     ''*Additional content extracted from images:*'' @ [CHR 0x0A, CHR 0x0A]"

definition deduplicateContent :: "string \<Rightarrow> string \<Rightarrow> string" where
  "deduplicateContent textContent ocrContent =
     (if 0 < length (uniqueOcr textContent ocrContent)
      then textContent @ additionalContentHeader @
           join [CHR 0x0A, CHR 0x0A] (uniqueOcr textContent ocrContent)
      else textContent)"

definition noContentPlaceholder :: string where
  "noContentPlaceholder = ''*No content could be extracted from this PDF.*''"

text \<open>
  \<open>ocrWords > textWords * 1.5\<close> compares an integer with a double; both counts are far
  below \<open>2^52\<close>, where the product is exact, so the test is \<open>2 * ocrWords > 3 * textWords\<close>.
\<close>

definition mergeExtractions :: "string \<Rightarrow> string \<Rightarrow> string" where
  "mergeExtractions textContent ocrContent =
     (let textLength = length (trim textContent);
          ocrLength = length (trim ocrContent)
      in if 500 < textLength then
           (let textWords = length (splitWhitespace textContent);
                ocrWords = length (splitWhitespace ocrContent)
            in if 3 * textWords < 2 * ocrWords \<and> 200 < ocrLength
               then deduplicateContent textContent ocrContent
               else textContent)
         else if 0 < textLength \<and> 0 < ocrLength then
           (if textLength * 2 < ocrLength
            then deduplicateContent ocrContent textContent
            else deduplicateContent textContent ocrContent)
         else if 0 < ocrLength then ocrContent
         else if 0 < textLength then textContent
         else noContentPlaceholder)"

section \<open>Thrown values\<close>

text \<open>What a \<open>throw\<close> or a rejected promise carries: an \<open>Error\<close> with its message, or another value.\<close>

datatype thrown = Error string | NonError string

text \<open>
  \<open>error instanceof Error ? error.message : String(error)\<close>; a thrown value that is not
  an \<open>Error\<close> is represented by its string conversion.
\<close>

fun errorMessage :: "thrown \<Rightarrow> string" where
  "errorMessage (Error message) = message"
| "errorMessage (NonError str) = str"

section \<open>Render pipeline (PageRenderer.ts)\<close>

record PageRenderResult =
  html :: string
  markdown :: string








section \<open>Result aggregation (SearchAggregator.ts)\<close>

record SearchResult =
  title :: string
  url :: string
  snippet :: string

record AggregatedResult =
  title :: string
  url :: string
  snippet :: string
  sources :: "string list"

record AggregatedSearch =
  results :: "AggregatedResult list"
  engineErrors :: "string list"

text \<open>
  The seven adapters are registered in this order. What an adapter does is outside
  the aggregator: a call of \<open>engine.search(query, region)\<close> either resolves with a list
  of results or rejects with a thrown value, and the adapters are a parameter that gives
  this outcome for each registered name.
\<close>

definition engines :: "string list" where
  "engines = [''AOL'', ''Brave'', ''Bing'', ''DuckDuckGo'', ''Yahoo'', ''Startpage'', ''Yandex'']"

type_synonym ISearchEngine = "string \<Rightarrow> string option \<Rightarrow> thrown + SearchResult list"

text \<open>
  The platform's \<open>URL\<close> class. An object of the class, for an \<open>http\<close> or \<open>https\<close> URL, is
  represented by the pieces of its serialization: \<open>href\<close> is the protocol (with its
  colon), two slashes, the credentials, host and port, the path, the query (with its
  question mark) and the fragment (with its hash sign). The constructor is a parameter
  \<open>newURL\<close> of the functions below, \<open>None\<close> where it throws. Assigning the empty string to
  \<open>hash\<close> removes the fragment. The value assigned to \<open>pathname\<close> here is the serialized
  path without its trailing slashes, which the setter stores as it is, except that
  the empty value gives the root path (the path of such a URL is never empty).
\<close>

record URL =
  protocol :: string
  hostPart :: string
  pathname :: string
  search :: string
  hash :: string

definition toString :: "URL \<Rightarrow> string" where
  "toString u = protocol u @ ''//'' @ hostPart u @ pathname u @ search u @ hash u"

definition setPathname :: "string \<Rightarrow> URL \<Rightarrow> URL" where
  "setPathname v u = u\<lparr>pathname := (if v = [] then ''/'' else v)\<rparr>"

text \<open>\<open>/^https?:\/\//i.test(s)\<close>.\<close>

definition hasHttpScheme :: "string \<Rightarrow> bool" where
  "hasHttpScheme s \<longleftrightarrow>
     toLowerCase (take 7 s) = ''http://'' \<or> toLowerCase (take 8 s) = ''https://''"

text \<open>\<open>pathname.replace(/\/+$/, '')\<close>: the whole run of slashes at the end is removed.\<close>

definition stripTrailingSlashes :: "string \<Rightarrow> string" where
  "stripTrailingSlashes p = rev (dropWhile (\<lambda>c. c = CHR ''/'') (rev p))"

text \<open>\<open>if (trimmed.startsWith('//')) trimmed = `https:${trimmed}`\<close>.\<close>

definition resolveSchemeRelative :: "string \<Rightarrow> string" where
  "resolveSchemeRelative trimmed =
     (if take 2 trimmed = ''//'' then ''https:'' @ trimmed else trimmed)"

record Sanitized =
  key :: string
  href :: string

definition sanitizeUrl :: "(string \<Rightarrow> URL option) \<Rightarrow> string \<Rightarrow> Sanitized option" where
  "sanitizeUrl newURL rawUrl =
     (if rawUrl = [] then None
      else if trim rawUrl = [] then None
      else
        (let trimmed = resolveSchemeRelative (trim rawUrl)
         in if \<not> hasHttpScheme trimmed then None
            else
              (case newURL trimmed of
                 None \<Rightarrow> None
               | Some parsed \<Rightarrow>
                   (let parsed1 = parsed\<lparr>hash := []\<rparr>;
                        parsed2 = (if pathname parsed1 \<noteq> ''/''
                                   then setPathname (stripTrailingSlashes (pathname parsed1)) parsed1
                                   else parsed1);
                        normalizedHref = toString parsed2
                    in Some \<lparr>key = toLowerCase normalizedHref, href = normalizedHref\<rparr>))))"

text \<open>
  The accumulator is a \<open>Map\<close>, which keeps its entries in insertion order: an association
  list, where \<open>AList.update\<close> replaces the value of a key that is present, in place, and
  appends a key that is absent. \<open>mergeResult\<close> mutates the record found under the key;
  the model stores the changed record under the same key. The operator \<open>??\<close> never
  replaces \<open>incoming.title\<close> or \<open>incoming.snippet\<close>, which are strings.
\<close>

type_synonym accumulator = "(string \<times> AggregatedResult) list"

definition mergeResult ::
  "(string \<Rightarrow> URL option) \<Rightarrow> accumulator \<Rightarrow> SearchResult \<Rightarrow> string \<Rightarrow> accumulator" where
  "mergeResult newURL accumulator incoming source =
     (case sanitizeUrl newURL (SearchResult.url incoming) of
        None \<Rightarrow> accumulator
      | Some sanitized \<Rightarrow>
          (let snippet = SearchResult.snippet incoming;
               title = SearchResult.title incoming
           in case map_of accumulator (key sanitized) of
                Some existing \<Rightarrow>
                  (let existing1 = (if source \<notin> set (sources existing)
                                    then existing\<lparr>sources := sources existing @ [source]\<rparr>
                                    else existing);
                       existing2 = (if AggregatedResult.snippet existing1 = [] \<and> snippet \<noteq> []
                                    then existing1\<lparr>snippet := snippet\<rparr> else existing1);
                       existing3 = (if AggregatedResult.title existing2 = [] \<and> title \<noteq> []
                                    then existing2\<lparr>title := title\<rparr> else existing2)
                   in AList.update (key sanitized) existing3 accumulator)
              | None \<Rightarrow>
                  AList.update (key sanitized)
                    \<lparr>title = title, url = href sanitized, snippet = snippet, sources = [source]\<rparr>
                    accumulator))"

text \<open>The inner loop \<open>for (const result of results) mergeResult(aggregated, result, name)\<close>.\<close>

fun mergeResults ::
  "(string \<Rightarrow> URL option) \<Rightarrow> accumulator \<Rightarrow> SearchResult list \<Rightarrow> string \<Rightarrow> accumulator" where
  "mergeResults newURL aggregated [] name = aggregated"
| "mergeResults newURL aggregated (result # rest) name =
     mergeResults newURL (mergeResult newURL aggregated result name) rest name"

text \<open>
  The outer loop over the registered engines, one after the other: the next search
  starts when the previous one has settled. The state is the map \<open>aggregated\<close> and the
  list \<open>engineErrors\<close>.
\<close>

fun searchLoop ::
  "(string \<Rightarrow> URL option) \<Rightarrow> (string \<Rightarrow> ISearchEngine) \<Rightarrow> string \<Rightarrow> string option \<Rightarrow>
   string list \<Rightarrow> accumulator \<times> string list \<Rightarrow> accumulator \<times> string list" where
  "searchLoop newURL adapters query region [] state = state"
| "searchLoop newURL adapters query region (name # rest) (aggregated, errors) =
     (case adapters name query region of
        Inr found \<Rightarrow>
          searchLoop newURL adapters query region rest
            (mergeResults newURL aggregated found name, errors)
      | Inl error \<Rightarrow>
          searchLoop newURL adapters query region rest
            (aggregated, errors @ [name @ '': '' @ errorMessage error]))"

definition searchAllEngines ::
  "(string \<Rightarrow> URL option) \<Rightarrow> (string \<Rightarrow> ISearchEngine) \<Rightarrow> string \<Rightarrow> string option \<Rightarrow>
   AggregatedSearch" where
  "searchAllEngines newURL adapters query region =
     (case searchLoop newURL adapters query region engines ([], []) of
        (aggregated, errors) \<Rightarrow>
          \<lparr>results = map snd aggregated, engineErrors = errors\<rparr>)"

subsection \<open>Vocabulary of the aggregation theorems\<close>

text \<open>
  The definitions of this subsection are not functions of the program; the theorems use
  them to say what the program computes.

  \<open>canonicalHref\<close> is the serialization that \<open>sanitizeUrl\<close> reaches from a parsed URL: no
  fragment, and the path without its trailing slashes (the root path when nothing else
  is left).
\<close>

definition canonicalHref :: "URL \<Rightarrow> string" where
  "canonicalHref parsed =
     protocol parsed @ ''//'' @ hostPart parsed @
     (if stripTrailingSlashes (pathname parsed) = [] then ''/''
      else stripTrailingSlashes (pathname parsed)) @ search parsed"

text \<open>The dedup key of a result, \<open>None\<close> when \<open>sanitizeUrl\<close> rejects its URL.\<close>

definition keyOf :: "(string \<Rightarrow> URL option) \<Rightarrow> SearchResult \<Rightarrow> string option" where
  "keyOf newURL result = map_option key (sanitizeUrl newURL (SearchResult.url result))"

text \<open>
  The calls \<open>mergeResult(aggregated, result, name)\<close> of a run, in the order in which the
  two nested loops make them, each as the pair of the adapter's name and the result; and
  the effect of a list of such calls on the accumulator.
\<close>

definition mergeCalls ::
  "(string \<Rightarrow> ISearchEngine) \<Rightarrow> string \<Rightarrow> string option \<Rightarrow> string list \<Rightarrow>
   (string \<times> SearchResult) list" where
  "mergeCalls adapters query region names =
     concat (map (\<lambda>name. case adapters name query region of
                            Inr found \<Rightarrow> map (Pair name) found
                          | Inl error \<Rightarrow> []) names)"

fun mergeAll ::
  "(string \<Rightarrow> URL option) \<Rightarrow> accumulator \<Rightarrow> (string \<times> SearchResult) list \<Rightarrow> accumulator" where
  "mergeAll newURL aggregated [] = aggregated"
| "mergeAll newURL aggregated ((name, result) # rest) =
     mergeAll newURL (mergeResult newURL aggregated result name) rest"

text \<open>The calls whose result has the dedup key \<open>k\<close>, and the first non-empty string of a list.\<close>

definition callsFor ::
  "(string \<Rightarrow> URL option) \<Rightarrow> string \<Rightarrow> (string \<times> SearchResult) list \<Rightarrow>
   (string \<times> SearchResult) list" where
  "callsFor newURL k calls = filter (\<lambda>call. keyOf newURL (snd call) = Some k) calls"

definition firstNonEmpty :: "string list \<Rightarrow> string" where
  "firstNonEmpty xs = (case filter (\<lambda>x. x \<noteq> []) xs of [] \<Rightarrow> [] | x # rest \<Rightarrow> x)"

text \<open>
  What holds of the record stored under the key \<open>k\<close> after the calls \<open>calls\<close>: some call has
  this key; the title and the snippet are the first non-empty ones among the calls
  with this key, in the order of the calls; and the sources are the names of these
  calls, each once.
\<close>

definition recordOK ::
  "(string \<Rightarrow> URL option) \<Rightarrow> (string \<times> SearchResult) list \<Rightarrow> string \<Rightarrow> AggregatedResult \<Rightarrow> bool" where
  "recordOK newURL calls k e \<longleftrightarrow>
     callsFor newURL k calls \<noteq> [] \<and>
     AggregatedResult.title e =
       firstNonEmpty (map (\<lambda>call. SearchResult.title (snd call)) (callsFor newURL k calls)) \<and>
     AggregatedResult.snippet e =
       firstNonEmpty (map (\<lambda>call. SearchResult.snippet (snd call)) (callsFor newURL k calls)) \<and>
     distinct (sources e) \<and>
     set (sources e) = fst ` set (callsFor newURL k calls)"

text \<open>The entries that the failing adapters add to \<open>engineErrors\<close>.\<close>

definition failureEntries ::
  "(string \<Rightarrow> ISearchEngine) \<Rightarrow> string \<Rightarrow> string option \<Rightarrow> string list \<Rightarrow> string list" where
  "failureEntries adapters query region names =
     concat (map (\<lambda>name. case adapters name query region of
                            Inr found \<Rightarrow> []
                          | Inl error \<Rightarrow> [name @ '': '' @ errorMessage error]) names)"

section \<open>Browser pool (BrowserPool.ts)\<close>

text \<open>
  A browser handle, as \<open>chromium.launch\<close> returns it, is named by a number; times are
  the values of \<open>Date.now()\<close>.
\<close>

record PooledBrowser =
  browser :: nat
  inUse :: bool
  lastUsed :: nat

record BrowserPool =
  pool :: "PooledBrowser list"
  maxSize :: nat
  idleTimeout :: nat

text \<open>
  \<open>const available = this.pool.find(pb => !pb.inUse)\<close> followed, when an entry is found, by
  \<open>available.inUse = true; available.lastUsed = Date.now()\<close>: the handle of the first
  entry that is not in use and the list with this entry marked, or \<open>None\<close>.
\<close>

fun takeAvailable :: "nat \<Rightarrow> PooledBrowser list \<Rightarrow> (nat \<times> PooledBrowser list) option" where
  "takeAvailable now [] = None"
| "takeAvailable now (pb # rest) =
     (if \<not> inUse pb then Some (browser pb, pb\<lparr>inUse := True, lastUsed := now\<rparr> # rest)
      else (case takeAvailable now rest of
              None \<Rightarrow> None
            | Some (handle, rest') \<Rightarrow> Some (handle, pb # rest')))"

text \<open>
  \<open>acquire\<close> is an \<open>async\<close> method. On the single thread of the event loop its code runs
  without interruption from the call to the first \<open>await\<close>, and again from the
  settlement of the awaited promise to the end; other code runs in between. A call is
  therefore in one of these states: not yet made; suspended at
  \<open>await chromium.launch(...)\<close>; waiting in the promise whose interval timer polls the
  pool every 100 ms; resolved with a handle; or rejected.
\<close>

datatype acquireCall = NotCalled | Launching | Waiting | Resolved nat | Rejected thrown

text \<open>
  The first part of \<open>acquire\<close>, up to its return or to the call of \<open>chromium.launch\<close>:
  the new state of the call and the pool.
\<close>

definition acquireStart :: "nat \<Rightarrow> BrowserPool \<Rightarrow> acquireCall \<times> BrowserPool" where
  "acquireStart now p =
     (case takeAvailable now (pool p) of
        Some (handle, marked) \<Rightarrow> (Resolved handle, p\<lparr>pool := marked\<rparr>)
      | None \<Rightarrow>
          if length (pool p) < maxSize p then (Launching, p)
          else (Waiting, p))"

text \<open>
  The second part, when the launch has resolved with \<open>handle\<close>:
  \<open>this.pool.push(pooled); return browser\<close>.
\<close>

definition acquireLaunched :: "nat \<Rightarrow> nat \<Rightarrow> BrowserPool \<Rightarrow> acquireCall \<times> BrowserPool" where
  "acquireLaunched now handle p =
     (Resolved handle,
      p\<lparr>pool := pool p @ [\<lparr>browser = handle, inUse = True, lastUsed = now\<rparr>]\<rparr>)"

text \<open>One firing of the interval timer of a waiting call.\<close>

definition acquirePoll :: "nat \<Rightarrow> BrowserPool \<Rightarrow> acquireCall \<times> BrowserPool" where
  "acquirePoll now p =
     (case takeAvailable now (pool p) of
        Some (handle, marked) \<Rightarrow> (Resolved handle, p\<lparr>pool := marked\<rparr>)
      | None \<Rightarrow> (Waiting, p))"

text \<open>\<open>release\<close>: the first entry with this handle, if any, is marked as not in use.\<close>

fun releaseIn :: "nat \<Rightarrow> nat \<Rightarrow> PooledBrowser list \<Rightarrow> PooledBrowser list" where
  "releaseIn now handle [] = []"
| "releaseIn now handle (pb # rest) =
     (if browser pb = handle then pb\<lparr>inUse := False, lastUsed := now\<rparr> # rest
      else pb # releaseIn now handle rest)"

definition release :: "nat \<Rightarrow> nat \<Rightarrow> BrowserPool \<Rightarrow> BrowserPool" where
  "release now handle p = p\<lparr>pool := releaseIn now handle (pool p)\<rparr>"

text \<open>
  A pool with its callers: the pool, the state of the call of each caller, and the
  number of calls of \<open>chromium.launch\<close> made so far. An event is one uninterrupted piece
  of code: a caller calls \<open>acquire\<close>; the launch of a suspended call resolves with a
  handle or rejects; the timer of a waiting call fires; some caller calls \<open>release\<close>.
  An event that does not fit the state of its caller changes nothing.
\<close>

record PoolRun =
  thePool :: BrowserPool
  callers :: "nat \<Rightarrow> acquireCall"
  launches :: nat

datatype event =
    Acquire nat nat
  | LaunchResolves nat nat nat
  | LaunchRejects nat thrown
  | TimerFires nat nat
  | Release nat nat

fun step :: "PoolRun \<Rightarrow> event \<Rightarrow> PoolRun" where
  "step w (Acquire caller now) =
     (if callers w caller = NotCalled
      then (case acquireStart now (thePool w) of
              (state, p) \<Rightarrow>
                w\<lparr>thePool := p, callers := (callers w)(caller := state),
                  launches := (if state = Launching then launches w + 1 else launches w)\<rparr>)
      else w)"
| "step w (LaunchResolves caller handle now) =
     (if callers w caller = Launching
      then (case acquireLaunched now handle (thePool w) of
              (state, p) \<Rightarrow> w\<lparr>thePool := p, callers := (callers w)(caller := state)\<rparr>)
      else w)"
| "step w (LaunchRejects caller error) =
     (if callers w caller = Launching
      then w\<lparr>callers := (callers w)(caller := Rejected error)\<rparr>
      else w)"
| "step w (TimerFires caller now) =
     (if callers w caller = Waiting
      then (case acquirePoll now (thePool w) of
              (state, p) \<Rightarrow> w\<lparr>thePool := p, callers := (callers w)(caller := state)\<rparr>)
      else w)"
| "step w (Release handle now) = w\<lparr>thePool := release now handle (thePool w)\<rparr>"

definition runEvents :: "PoolRun \<Rightarrow> event list \<Rightarrow> PoolRun" where
  "runEvents w events = foldl step w events"

text \<open>\<open>new BrowserPool(maxSize, idleTimeoutMs)\<close> with no call made yet.\<close>

definition newPool :: "nat \<Rightarrow> nat \<Rightarrow> PoolRun" where
  "newPool capacity idleTimeoutMs =
     \<lparr>thePool = \<lparr>pool = [], maxSize = capacity, idleTimeout = idleTimeoutMs\<rparr>,
      callers = (\<lambda>caller. NotCalled), launches = 0\<rparr>"

section \<open>Example inputs\<close>

definition reportPara :: string where
  "reportPara = ''Annual Report 2024: revenue grew by ten percent.''"

definition reportParaOcr :: string where
  "reportParaOcr = ''annual report 2024 -- REVENUE grew by ten percent''"

definition figurePara :: string where
  "figurePara = ''Figure 3 shows the quarterly breakdown by region.''"

definition pagePara :: string where
  "pagePara = ''Page 7''"

definition richText :: string where
  "richText = replicate 501 (CHR ''a'')"

definition twoWords :: "char \<Rightarrow> string" where
  "twoWords x = replicate 300 x @ [CHR '' '', x]"

definition echoOcr :: string where
  "echoOcr = twoWords (CHR ''a'')"

definition newOcr :: string where
  "newOcr = twoWords (CHR ''b'')"

definition foxText :: string where
  "foxText = ''The quick brown fox jumps over the lazy dog''"

definition jugsOcr :: string where
  "jugsOcr = ''Pack my box with five dozen liquor jugs right now''"

definition longOcr :: string where
  "longOcr = ''Pack my box with five dozen liquor jugs; then pack another box with five dozen more jugs''"

text \<open>
  The values of the \<open>URL\<close> constructor at the inputs of the examples below, following the
  URL standard: the host is lower-cased, the path keeps its case and its empty
  segments, and a URL with an empty host is refused.
\<close>

definition exampleURL :: "string \<Rightarrow> URL option" where
  "exampleURL = map_of
     [(''https://example.com/docs//'',
         \<lparr>protocol = ''https:'', hostPart = ''example.com'', pathname = ''/docs//'',
          search = [], hash = []\<rparr>),
      (''https://example.com/Docs/'',
         \<lparr>protocol = ''https:'', hostPart = ''example.com'', pathname = ''/Docs/'',
          search = [], hash = []\<rparr>),
      (''https://EXAMPLE.com/docs#top'',
         \<lparr>protocol = ''https:'', hostPart = ''example.com'', pathname = ''/docs'',
          search = [], hash = ''#top''\<rparr>),
      (''https://example.com'',
         \<lparr>protocol = ''https:'', hostPart = ''example.com'', pathname = ''/'',
          search = [], hash = []\<rparr>),
      (''http://example.org/a?q=1'',
         \<lparr>protocol = ''http:'', hostPart = ''example.org'', pathname = ''/a'',
          search = ''?q=1'', hash = []\<rparr>)]"

text \<open>
  Results and adapters for the examples: two adapters report the same page under URLs
  that differ in case, trailing slash and fragment; further adapters fail.
\<close>

definition resultA :: SearchResult where
  "resultA = \<lparr>SearchResult.title = [], url = ''https://example.com/Docs/'', snippet = ''x''\<rparr>"
definition resultB :: SearchResult where
  "resultB = \<lparr>SearchResult.title = ''T'', url = ''  //EXAMPLE.com/docs#top '', snippet = ''y''\<rparr>"
definition resultC :: SearchResult where
  "resultC = \<lparr>SearchResult.title = ''U'', url = ''http://example.org/a?q=1'', snippet = []\<rparr>"

definition exampleCalls :: "(string \<times> SearchResult) list" where
  "exampleCalls = [(''Brave'', resultA), (''Yahoo'', resultB)]"

definition exampleAdapters :: "string \<Rightarrow> ISearchEngine" where
  "exampleAdapters name query region =
     (if name = ''Brave'' then Inr [resultA]
      else if name = ''Yahoo'' then Inr [resultB, resultC]
      else if name = ''Bing'' then Inl (NonError ''socket hang up'')
      else Inl (Error ''timeout''))"

definition failingAdapters :: "string \<Rightarrow> ISearchEngine" where
  "failingAdapters name query region = Inl (Error ''timeout'')"

definition rivalAdapters :: "string \<Rightarrow> ISearchEngine" where
  "rivalAdapters name query region =
     (if name = ''Yahoo''
      then Inr [\<lparr>SearchResult.title = ''Docs (Yahoo)'', url = ''  //EXAMPLE.com/docs#top '',
                 snippet = ''y''\<rparr>]
      else if name = ''Brave''
      then Inr [\<lparr>SearchResult.title = ''Docs (Brave)'', url = ''https://example.com/Docs/'',
                 snippet = []\<rparr>]
      else Inr [])"







text \<open>
  Two schedules for four callers of a pool of capacity 3: in the first the four calls
  of \<open>acquire\<close> are made before any launch has resolved; in the second each call is made
  after the launch of the previous one has resolved.
\<close>

definition fourAtOnce :: "event list" where
  "fourAtOnce =
     [Acquire 0 1000, Acquire 1 1000, Acquire 2 1000, Acquire 3 1000,
      LaunchResolves 0 100 1400, LaunchResolves 1 101 1410,
      LaunchResolves 2 102 1420, LaunchResolves 3 103 1430]"

definition oneByOne :: "event list" where
  "oneByOne =
     [Acquire 0 1000, LaunchResolves 0 100 1400,
      Acquire 1 1500, LaunchResolves 1 101 1900,
      Acquire 2 2000, LaunchResolves 2 102 2400,
      Acquire 3 2500, TimerFires 3 2600, Release 101 2650, TimerFires 3 2700]"

section \<open>Theorems\<close>

subsection \<open>Output budget\<close>

text \<open>
  C9. A markdown text of at most 40,000 characters is returned unchanged; a longer one
  becomes its first 40,000 characters followed by the truncation marker
  \<open>"\n\n... (truncated)"\<close>, so the output is 40,017 characters long.
\<close>

theorem truncateMarkdown_budget:
  "(length text \<le> 40000 \<longrightarrow> truncateMarkdown text DEFAULT_LIMIT = text) \<and>
   (40000 < length text \<longrightarrow>
      truncateMarkdown text DEFAULT_LIMIT = take 40000 text @ truncationMarker \<and>
      take 40000 (truncateMarkdown text DEFAULT_LIMIT) = take 40000 text \<and>
      drop 40000 (truncateMarkdown text DEFAULT_LIMIT) = [CHR 0x0A, CHR 0x0A] @ ''... (truncated)'' \<and>
      length (truncateMarkdown text DEFAULT_LIMIT) = 40017)"
  by (simp add: truncateMarkdown_def DEFAULT_LIMIT_def truncationMarker_def)

theorem truncateMarkdown_budget_witness:
  "length (replicate 40000 (CHR ''a'')) \<le> 40000 \<and>
   truncateMarkdown (replicate 40000 (CHR ''a'')) DEFAULT_LIMIT = replicate 40000 (CHR ''a'') \<and>
   40000 < length (replicate 40001 (CHR ''a'')) \<and>
   truncateMarkdown (replicate 40001 (CHR ''a'')) DEFAULT_LIMIT =
     replicate 40000 (CHR ''a'') @ truncationMarker \<and>
   length (truncateMarkdown (replicate 40001 (CHR ''a'')) DEFAULT_LIMIT) = 40017"
  using truncateMarkdown_budget [of "replicate 40000 (CHR ''a'')"]
        truncateMarkdown_budget [of "replicate 40001 (CHR ''a'')"]
  by (simp add: truncationMarker_def)

subsection \<open>Strings: trimming and splitting\<close>

lemma trim_eq_Nil_iff: "trim s = [] \<longleftrightarrow> (\<forall>c\<in>set s. isWhiteSpace c)"
proof
  assume h: "trim s = []"
  then have "dropWhile isWhiteSpace (rev (dropWhile isWhiteSpace s)) = []"
    by (simp add: trim_def)
  then have a: "\<forall>c\<in>set (dropWhile isWhiteSpace s). isWhiteSpace c"
    by (simp add: dropWhile_eq_Nil_conv)
  have "dropWhile isWhiteSpace s = []"
  proof (cases "dropWhile isWhiteSpace s")
    case Nil then show ?thesis .
  next
    case (Cons x xs)
    then have "\<not> isWhiteSpace x" by (metis hd_dropWhile list.sel(1) list.distinct(1))
    with a Cons show ?thesis by simp
  qed
  then show "\<forall>c\<in>set s. isWhiteSpace c" by (simp add: dropWhile_eq_Nil_conv)
next
  assume "\<forall>c\<in>set s. isWhiteSpace c"
  then show "trim s = []" by (auto simp: trim_def dest: set_dropWhileD)
qed

lemma trim_id:
  assumes "s \<noteq> []" "\<not> isWhiteSpace (hd s)" "\<not> isWhiteSpace (last s)"
  shows "trim s = s"
proof -
  have a: "dropWhile isWhiteSpace s = s" using assms by (cases s) auto
  have "rev s \<noteq> []" "\<not> isWhiteSpace (hd (rev s))" using assms by (auto simp: hd_rev)
  then have "dropWhile isWhiteSpace (rev s) = rev s" by (cases "rev s") auto
  with a show ?thesis by (simp add: trim_def)
qed

lemma splitRuns_no_sep:
  "\<forall>c\<in>set s. \<not> sep c \<Longrightarrow> splitRuns sep n cur s = [cur @ s]"
  by (induction s arbitrary: cur) auto

lemma splitRuns_at_sep:
  assumes "\<forall>c\<in>set a. \<not> sep c" "sep c" "n \<le> Suc (length (takeWhile sep b))"
  shows "splitRuns sep n cur (a @ c # b) = (cur @ a) # splitRuns sep n [] (dropWhile sep b)"
  using assms by (induction a arbitrary: cur) auto

lemma whitespace_not_alnum: "isWhiteSpace c \<Longrightarrow> \<not> isLowerAlnum (toLowerCaseChar c)"
  unfolding isWhiteSpace_def
  by (elim disjE) (simp_all add: isLowerAlnum_def toLowerCaseChar_def isUpperCase_def)

lemma char_facts:
  "\<not> isWhiteSpace (CHR ''a'')" "\<not> isWhiteSpace (CHR ''b'')" "isWhiteSpace (CHR '' '')"
  "isLowerAlnum (CHR ''a'')" "isLowerAlnum (CHR ''b'')" "\<not> isLowerAlnum (CHR '' '')"
  "toLowerCaseChar (CHR ''a'') = CHR ''a''" "toLowerCaseChar (CHR ''b'') = CHR ''b''"
  "toLowerCaseChar (CHR '' '') = CHR '' ''"
  by (simp_all add: isWhiteSpace_def isLowerAlnum_def toLowerCaseChar_def isUpperCase_def)

subsection \<open>Unique-paragraph dedup\<close>

lemma blank_normalizes_to_Nil: "trim p = [] \<Longrightarrow> normalizeForComparison p = []"
  by (simp add: trim_eq_Nil_iff normalizeForComparison_def toLowerCase_def filter_empty_conv
        whitespace_not_alnum)

lemma uniqueOcr_char:
  "uniqueOcr primary secondary =
     filter (\<lambda>p. 20 < length (normalizeForComparison p) \<and>
                 normalizeForComparison p \<notin> normalizeForComparison ` set (splitParagraphs primary))
       (splitParagraphs secondary)"
proof -
  have seen: "\<And>q. q \<noteq> [] \<Longrightarrow>
      q \<in> normalizeForComparison ` set (paragraphs primary) \<longleftrightarrow>
      q \<in> normalizeForComparison ` set (splitParagraphs primary)"
    unfolding paragraphs_def using blank_normalizes_to_Nil by fastforce
  have "\<And>p. 20 < length (normalizeForComparison p) \<Longrightarrow> trim p \<noteq> []"
    using blank_normalizes_to_Nil by fastforce
  then show ?thesis
    unfolding uniqueOcr_def paragraphs_def Let_def filter_filter set_map
    by (intro filter_cong refl) (use seen in fastforce)
qed

lemma header_not_Nil: "additionalContentHeader \<noteq> []"
  by (simp add: additionalContentHeader_def)

lemma deduplicateContent_prefix:
  "take (length primary) (deduplicateContent primary secondary) = primary"
  by (simp add: deduplicateContent_def)

text \<open>
  C8. \<open>deduplicateContent\<close> splits both texts at every run of two or more newlines,
  normalizes a paragraph by lower-casing it, deleting every character outside \<open>[a-z0-9]\<close>
  and keeping the first 100 characters, and keeps a paragraph of the secondary text if
  and only if its normalized form is longer than 20 characters and is not the
  normalized form of a paragraph of the primary text. When no paragraph is kept the
  primary text is returned unchanged; otherwise the kept paragraphs follow the primary
  text and the additional-content header, joined by blank lines. (The source's removal
  of whitespace-only paragraphs changes nothing: they normalize to the empty string.)
\<close>

theorem deduplicateContent_unique_paragraphs:
  "deduplicateContent primary secondary =
     (let kept = filter (\<lambda>p. 20 < length (take 100 (filter isLowerAlnum (toLowerCase p))) \<and>
                      take 100 (filter isLowerAlnum (toLowerCase p)) \<notin>
                        (\<lambda>q. take 100 (filter isLowerAlnum (toLowerCase q))) ` set (splitParagraphs primary))
                  (splitParagraphs secondary)
      in if kept = [] then primary
         else primary @ additionalContentHeader @ join [CHR 0x0A, CHR 0x0A] kept)"
proof -
  have n: "normalizeForComparison = (\<lambda>q. take 100 (filter isLowerAlnum (toLowerCase q)))"
    by (rule ext) (simp add: normalizeForComparison_def)
  show ?thesis
    unfolding deduplicateContent_def uniqueOcr_char length_greater_0_conv n Let_def
    by simp
qed

theorem deduplicateContent_unique_paragraphs_witness:
  "deduplicateContent reportPara
     (reportParaOcr @ [CHR 0x0A, CHR 0x0A] @ figurePara @ [CHR 0x0A, CHR 0x0A, CHR 0x0A] @ pagePara)
     = reportPara @ additionalContentHeader @ figurePara"
  by (subst deduplicateContent_unique_paragraphs) code_simp

subsection \<open>Merging the two extractions\<close>

lemma richText_facts:
  "trim richText = richText" "length richText = 501"
  "splitWhitespace richText = [richText]" "splitParagraphs richText = [richText]"
  "normalizeForComparison richText = replicate 100 (CHR ''a'')"
  by (simp_all add: richText_def trim_id char_facts splitWhitespace_def splitParagraphs_def
        splitRuns_no_sep normalizeForComparison_def toLowerCase_def)

lemma twoWords_facts:
  assumes "\<not> isWhiteSpace x" "isLowerAlnum x" "toLowerCaseChar x = x" "x \<noteq> CHR 0x0A"
  shows "trim (twoWords x) = twoWords x" "length (twoWords x) = 302"
        "length (splitWhitespace (twoWords x)) = 2"
        "splitParagraphs (twoWords x) = [twoWords x]"
        "normalizeForComparison (twoWords x) = replicate 100 x"
proof -
  show "trim (twoWords x) = twoWords x" using assms by (simp add: trim_id twoWords_def)
  show "length (twoWords x) = 302" by (simp add: twoWords_def)
  have "splitWhitespace (twoWords x) = [replicate 300 x, [x]]"
    unfolding splitWhitespace_def twoWords_def
    by (subst splitRuns_at_sep) (use assms in \<open>simp_all add: char_facts\<close>)
  then show "length (splitWhitespace (twoWords x)) = 2" by simp
  show "splitParagraphs (twoWords x) = [twoWords x]"
    unfolding splitParagraphs_def twoWords_def using assms by (subst splitRuns_no_sep) auto
  show "normalizeForComparison (twoWords x) = replicate 100 x"
    using assms by (simp add: normalizeForComparison_def toLowerCase_def twoWords_def char_facts)
qed

lemmas echoOcr_facts =
  twoWords_facts [of "CHR ''a''", folded echoOcr_def, simplified char_facts, simplified]

lemmas newOcr_facts =
  twoWords_facts [of "CHR ''b''", folded newOcr_def, simplified char_facts, simplified]

lemma uniqueOcr_echo: "uniqueOcr richText echoOcr = []"
  by (simp add: uniqueOcr_char richText_facts echoOcr_facts)

lemma uniqueOcr_new: "uniqueOcr richText newOcr = [newOcr]"
  by (simp add: uniqueOcr_char richText_facts newOcr_facts)

lemma sparse_facts:
  "trim foxText = foxText" "trim jugsOcr = jugsOcr" "trim longOcr = longOcr"
  "length foxText = 43" "length jugsOcr = 49" "length longOcr = 88"
  "foxText \<noteq> []" "jugsOcr \<noteq> []" "longOcr \<noteq> []"
  "trim '' '' = []" "trim [] = []"
  by code_simp+

text \<open>
  C2, as stated, fails: a recognized text with more than 1.5 times the words of the
  structured text and more than 200 characters, all of whose paragraphs repeat the
  structured text, leaves the output exactly the structured text.
\<close>

theorem mergeExtractions_rich_text_counterexample:
  "500 < length richText \<and>
   3 * length (splitWhitespace richText) < 2 * length (splitWhitespace echoOcr) \<and>
   200 < length echoOcr \<and>
   mergeExtractions richText echoOcr = richText"
  by (simp add: mergeExtractions_def deduplicateContent_def richText_facts echoOcr_facts
        uniqueOcr_echo)

text \<open>
  C2, amended. When the trimmed structured text is longer than 500 characters, the
  recognized text's unique paragraphs are appended after the structured text under the
  additional-content header if and only if the recognized word count exceeds 1.5 times
  the structured word count, the trimmed recognized text is longer than 200 characters
  and at least one recognized paragraph is unique; otherwise the output is exactly the
  structured text. Word counts are the numbers of pieces of \<open>split(/\s+/)\<close>.
\<close>

theorem mergeExtractions_rich_text:
  assumes "500 < length (trim textContent)"
  shows "mergeExtractions textContent ocrContent =
     (if 3 * length (splitWhitespace textContent) < 2 * length (splitWhitespace ocrContent) \<and>
         200 < length (trim ocrContent) \<and> uniqueOcr textContent ocrContent \<noteq> []
      then textContent @ additionalContentHeader @
           join [CHR 0x0A, CHR 0x0A] (uniqueOcr textContent ocrContent)
      else textContent) \<and>
     (mergeExtractions textContent ocrContent \<noteq> textContent \<longleftrightarrow>
      3 * length (splitWhitespace textContent) < 2 * length (splitWhitespace ocrContent) \<and>
      200 < length (trim ocrContent) \<and> uniqueOcr textContent ocrContent \<noteq> [])"
  using assms
  by (auto simp add: mergeExtractions_def deduplicateContent_def Let_def header_not_Nil)

theorem mergeExtractions_rich_text_witness:
  "500 < length (trim richText) \<and>
   mergeExtractions richText newOcr = richText @ additionalContentHeader @ newOcr \<and>
   mergeExtractions richText richText = richText"
  using mergeExtractions_rich_text [of richText newOcr]
        mergeExtractions_rich_text [of richText richText]
  by (simp add: richText_facts newOcr_facts uniqueOcr_new)

text \<open>
  C5, as stated, fails: a recognized text that is longer than the structured text (and
  has more words), but not more than twice as long, does not become the primary body.
\<close>

theorem mergeExtractions_sparse_text_counterexample:
  "length foxText \<le> 500 \<and> foxText \<noteq> [] \<and> jugsOcr \<noteq> [] \<and>
   length foxText < length jugsOcr \<and>
   length (splitWhitespace foxText) < length (splitWhitespace jugsOcr) \<and>
   mergeExtractions foxText jugsOcr = foxText @ additionalContentHeader @ jugsOcr \<and>
   mergeExtractions foxText jugsOcr \<noteq> jugsOcr @ additionalContentHeader @ foxText"
  by code_simp

text \<open>
  C5, amended. When the trimmed structured text has at most 500 characters: if both
  trimmed texts are non-empty, the recognized text is the primary body when its trimmed
  length exceeds twice the structured text's trimmed length and the structured text is
  the primary body otherwise, and the other text's unique paragraphs are appended to
  the primary body; if exactly one trimmed text is non-empty that text is returned
  verbatim; if both are empty the placeholder is returned.
\<close>

theorem mergeExtractions_sparse_text:
  assumes "length (trim textContent) \<le> 500"
  shows
   "(trim textContent \<noteq> [] \<and> trim ocrContent \<noteq> [] \<and>
       2 * length (trim textContent) < length (trim ocrContent) \<longrightarrow>
       mergeExtractions textContent ocrContent = deduplicateContent ocrContent textContent \<and>
       take (length ocrContent) (mergeExtractions textContent ocrContent) = ocrContent) \<and>
    (trim textContent \<noteq> [] \<and> trim ocrContent \<noteq> [] \<and>
       length (trim ocrContent) \<le> 2 * length (trim textContent) \<longrightarrow>
       mergeExtractions textContent ocrContent = deduplicateContent textContent ocrContent \<and>
       take (length textContent) (mergeExtractions textContent ocrContent) = textContent) \<and>
    (trim textContent = [] \<and> trim ocrContent \<noteq> [] \<longrightarrow>
       mergeExtractions textContent ocrContent = ocrContent) \<and>
    (trim textContent \<noteq> [] \<and> trim ocrContent = [] \<longrightarrow>
       mergeExtractions textContent ocrContent = textContent) \<and>
    (trim textContent = [] \<and> trim ocrContent = [] \<longrightarrow>
       mergeExtractions textContent ocrContent = noContentPlaceholder)"
  using assms by (auto simp add: mergeExtractions_def Let_def deduplicateContent_prefix)

theorem mergeExtractions_sparse_text_witness:
  "length (trim foxText) \<le> 500 \<and>
   mergeExtractions foxText longOcr = deduplicateContent longOcr foxText \<and>
   mergeExtractions foxText jugsOcr = deduplicateContent foxText jugsOcr \<and>
   mergeExtractions '' '' jugsOcr = jugsOcr \<and>
   mergeExtractions foxText '' '' = foxText \<and>
   mergeExtractions '' '' [] = noContentPlaceholder"
  using mergeExtractions_sparse_text [of foxText longOcr]
        mergeExtractions_sparse_text [of foxText jugsOcr]
        mergeExtractions_sparse_text [of "'' ''" jugsOcr]
        mergeExtractions_sparse_text [of foxText "'' ''"]
        mergeExtractions_sparse_text [of "'' ''" "[]"]
  by (simp add: sparse_facts)

subsection \<open>URL canonicalization\<close>

lemma stripTrailingSlashes_last:
  assumes "stripTrailingSlashes p \<noteq> []"
  shows "last (stripTrailingSlashes p) \<noteq> CHR ''/''"
proof -
  define d where "d = dropWhile (\<lambda>c. c = CHR ''/'') (rev p)"
  have s: "stripTrailingSlashes p = rev d" by (simp add: stripTrailingSlashes_def d_def)
  with assms have ne: "d \<noteq> []" by simp
  then have "\<not> (hd d = CHR ''/'')" unfolding d_def by (rule hd_dropWhile)
  moreover have "last (rev d) = hd d" using ne by (simp add: last_rev)
  ultimately show ?thesis by (simp add: s)
qed

lemma stripTrailingSlashes_decomp:
  "\<exists>n. p = stripTrailingSlashes p @ replicate n (CHR ''/'')"
proof -
  define t where "t = takeWhile (\<lambda>c. c = CHR ''/'') (rev p)"
  define d where "d = dropWhile (\<lambda>c. c = CHR ''/'') (rev p)"
  have "rev p = t @ d" by (simp add: t_def d_def)
  then have "rev (rev p) = rev (t @ d)" by (rule arg_cong)
  then have p: "p = rev d @ rev t" by (simp only: rev_rev_ident rev_append)
  have "\<forall>c\<in>set t. c = CHR ''/''" unfolding t_def by (auto dest: set_takeWhileD)
  then have "replicate (length t) (CHR ''/'') = t" by (rule replicate_length_same)
  then have "rev t = replicate (length t) (CHR ''/'')" by (metis rev_replicate)
  with p have "p = stripTrailingSlashes p @ replicate (length t) (CHR ''/'')"
    by (simp only: stripTrailingSlashes_def d_def)
  then show ?thesis ..
qed

lemma trim_Nil: "trim [] = []"
  by (simp add: trim_def)

lemma stripTrailingSlashes_root: "stripTrailingSlashes ''/'' = []"
  by (simp add: stripTrailingSlashes_def)

lemma sanitizeUrl_None:
  "sanitizeUrl newURL rawUrl = None \<longleftrightarrow>
      trim rawUrl = [] \<or>
      \<not> hasHttpScheme (resolveSchemeRelative (trim rawUrl)) \<or>
      newURL (resolveSchemeRelative (trim rawUrl)) = None"
proof (cases "rawUrl = []")
  case True
  then show ?thesis by (simp add: sanitizeUrl_def trim_Nil)
next
  case False
  then show ?thesis
    by (cases "newURL (resolveSchemeRelative (trim rawUrl))")
       (simp_all add: sanitizeUrl_def Let_def)
qed

lemma sanitizeUrl_Some:
  assumes "trim rawUrl \<noteq> []" "hasHttpScheme (resolveSchemeRelative (trim rawUrl))"
    "newURL (resolveSchemeRelative (trim rawUrl)) = Some parsed"
  shows "sanitizeUrl newURL rawUrl =
     Some \<lparr>key = toLowerCase (canonicalHref parsed), href = canonicalHref parsed\<rparr>"
proof -
  have r: "rawUrl \<noteq> []" using assms(1) trim_Nil by auto
  show ?thesis
  proof (cases "pathname parsed = ''/''")
    case True
    then show ?thesis using assms r
      by (simp add: sanitizeUrl_def Let_def toString_def canonicalHref_def
            stripTrailingSlashes_root)
  next
    case False
    then show ?thesis using assms r
      by (simp add: sanitizeUrl_def Let_def toString_def canonicalHref_def setPathname_def)
  qed
qed

text \<open>
  C3, as stated, fails twice: all trailing slashes of the path are removed, not a
  single one, and a URL with the \<open>http\<close> scheme that the \<open>URL\<close> constructor refuses is
  rejected as well.
\<close>

theorem sanitizeUrl_canonical_counterexample:
  "sanitizeUrl exampleURL ''https://example.com/docs//'' =
     Some \<lparr>key = ''https://example.com/docs'', href = ''https://example.com/docs''\<rparr> \<and>
   ''https://example.com/docs'' \<noteq> ''https://example.com/docs/'' \<and>
   ''http://'' \<noteq> [] \<and> hasHttpScheme ''http://'' \<and> sanitizeUrl exampleURL ''http://'' = None"
  by code_simp

text \<open>
  C3, amended. \<open>sanitizeUrl\<close> rejects a raw URL exactly when it is empty after trimming,
  or does not start with \<open>http://\<close> or \<open>https://\<close> (in any case) once a leading \<open>//\<close> has
  been resolved to \<open>https://\<close>, or is refused by the \<open>URL\<close> constructor. Otherwise the
  display URL is the serialization of the parsed URL without its fragment and with all
  trailing slashes of the path removed (a path of slashes only becomes the root path),
  and the dedup key is the lower-cased display URL; the display URL itself is not
  lower-cased.
\<close>

theorem sanitizeUrl_canonical:
  "(sanitizeUrl newURL rawUrl = None \<longleftrightarrow>
      trim rawUrl = [] \<or>
      \<not> hasHttpScheme (resolveSchemeRelative (trim rawUrl)) \<or>
      newURL (resolveSchemeRelative (trim rawUrl)) = None) \<and>
   (\<forall>s. sanitizeUrl newURL rawUrl = Some s \<longrightarrow>
      (\<exists>parsed path n.
         newURL (resolveSchemeRelative (trim rawUrl)) = Some parsed \<and>
         href s = protocol parsed @ ''//'' @ hostPart parsed @ path @ search parsed \<and>
         key s = toLowerCase (href s) \<and>
         (path = ''/'' \<or> path \<noteq> [] \<and> last path \<noteq> CHR ''/'') \<and>
         (pathname parsed = path @ replicate n (CHR ''/'') \<or>
          path = ''/'' \<and> pathname parsed = replicate n (CHR ''/''))))"
proof (intro conjI allI impI)
  show "sanitizeUrl newURL rawUrl = None \<longleftrightarrow>
      trim rawUrl = [] \<or>
      \<not> hasHttpScheme (resolveSchemeRelative (trim rawUrl)) \<or>
      newURL (resolveSchemeRelative (trim rawUrl)) = None"
    by (rule sanitizeUrl_None)
next
  fix s
  assume s: "sanitizeUrl newURL rawUrl = Some s"
  then have "sanitizeUrl newURL rawUrl \<noteq> None" by simp
  then have a: "trim rawUrl \<noteq> []" "hasHttpScheme (resolveSchemeRelative (trim rawUrl))"
    and "newURL (resolveSchemeRelative (trim rawUrl)) \<noteq> None"
    unfolding sanitizeUrl_None by blast+
  then obtain parsed where p: "newURL (resolveSchemeRelative (trim rawUrl)) = Some parsed"
    by blast
  define q where "q = stripTrailingSlashes (pathname parsed)"
  define path where "path = (if q = [] then ''/'' else q)"
  obtain n where n: "pathname parsed = q @ replicate n (CHR ''/'')"
    unfolding q_def using stripTrailingSlashes_decomp by blast
  from sanitizeUrl_Some [of rawUrl newURL parsed] a p s
  have s': "s = \<lparr>key = toLowerCase (canonicalHref parsed), href = canonicalHref parsed\<rparr>"
    by simp
  have h: "href s = protocol parsed @ ''//'' @ hostPart parsed @ path @ search parsed"
    by (simp add: s' canonicalHref_def path_def q_def)
  have k: "key s = toLowerCase (href s)" by (simp add: s')
  have l: "path = ''/'' \<or> path \<noteq> [] \<and> last path \<noteq> CHR ''/''"
    unfolding path_def q_def using stripTrailingSlashes_last [of "pathname parsed"] by simp
  have d: "pathname parsed = path @ replicate n (CHR ''/'') \<or>
          path = ''/'' \<and> pathname parsed = replicate n (CHR ''/'')"
    using n by (cases "q = []") (simp_all add: path_def)
  from p h k l d
  show "\<exists>parsed path n.
         newURL (resolveSchemeRelative (trim rawUrl)) = Some parsed \<and>
         href s = protocol parsed @ ''//'' @ hostPart parsed @ path @ search parsed \<and>
         key s = toLowerCase (href s) \<and>
         (path = ''/'' \<or> path \<noteq> [] \<and> last path \<noteq> CHR ''/'') \<and>
         (pathname parsed = path @ replicate n (CHR ''/'') \<or>
          path = ''/'' \<and> pathname parsed = replicate n (CHR ''/''))"
    by blast
qed

theorem sanitizeUrl_canonical_witness:
  "sanitizeUrl exampleURL [] = None \<and>
   sanitizeUrl exampleURL ''ftp://example.com/'' = None \<and>
   sanitizeUrl exampleURL ''example.com/docs'' = None \<and>
   (\<exists>s. sanitizeUrl exampleURL ''  //EXAMPLE.com/docs#top '' = Some s \<and>
        href s = ''https://example.com/docs'' \<and> key s = ''https://example.com/docs'') \<and>
   (\<exists>s. sanitizeUrl exampleURL ''https://example.com/Docs/'' = Some s \<and>
        href s = ''https://example.com/Docs'' \<and> key s = ''https://example.com/docs'')"
proof -
  have e: "trim [] = []" "\<not> hasHttpScheme (resolveSchemeRelative (trim ''ftp://example.com/''))"
    "\<not> hasHttpScheme (resolveSchemeRelative (trim ''example.com/docs''))"
    by code_simp+
  have s1: "sanitizeUrl exampleURL ''  //EXAMPLE.com/docs#top '' =
      Some \<lparr>key = ''https://example.com/docs'', href = ''https://example.com/docs''\<rparr>"
    by code_simp
  have s2: "sanitizeUrl exampleURL ''https://example.com/Docs/'' =
      Some \<lparr>key = ''https://example.com/docs'', href = ''https://example.com/Docs''\<rparr>"
    by code_simp
  show ?thesis
    using sanitizeUrl_canonical [of exampleURL "[]"]
      sanitizeUrl_canonical [of exampleURL "''ftp://example.com/''"]
      sanitizeUrl_canonical [of exampleURL "''example.com/docs''"]
      sanitizeUrl_canonical [of exampleURL "''  //EXAMPLE.com/docs#top ''"]
      sanitizeUrl_canonical [of exampleURL "''https://example.com/Docs/''"]
    by (simp add: e s1 s2)
qed

subsection \<open>Merging results\<close>

lemma mergeResult_rejected:
  "sanitizeUrl newURL (SearchResult.url r) = None \<Longrightarrow> mergeResult newURL acc r n = acc"
  by (simp add: mergeResult_def)

lemma mergeResult_new:
  "sanitizeUrl newURL (SearchResult.url r) = Some z \<Longrightarrow> map_of acc (key z) = None \<Longrightarrow>
   mergeResult newURL acc r n =
     AList.update (key z)
       \<lparr>title = SearchResult.title r, url = href z, snippet = SearchResult.snippet r,
        sources = [n]\<rparr> acc"
  by (simp add: mergeResult_def Let_def)

lemma mergeResult_existing:
  "sanitizeUrl newURL (SearchResult.url r) = Some z \<Longrightarrow> map_of acc (key z) = Some e \<Longrightarrow>
   mergeResult newURL acc r n =
     AList.update (key z)
       \<lparr>title = (if AggregatedResult.title e = [] then SearchResult.title r
                 else AggregatedResult.title e),
        url = AggregatedResult.url e,
        snippet = (if AggregatedResult.snippet e = [] then SearchResult.snippet r
                   else AggregatedResult.snippet e),
        sources = (if n \<in> set (sources e) then sources e else sources e @ [n])\<rparr> acc"
  by (cases e) (simp add: mergeResult_def Let_def)

lemma mergeAll_append:
  "mergeAll newURL acc (xs @ ys) = mergeAll newURL (mergeAll newURL acc xs) ys"
  by (induction xs arbitrary: acc) auto

lemma mergeResults_mergeAll:
  "mergeResults newURL acc rs name = mergeAll newURL acc (map (Pair name) rs)"
  by (induction rs arbitrary: acc) auto

lemma searchLoop_mergeAll:
  "searchLoop newURL adapters query region names (acc, errs) =
     (mergeAll newURL acc (mergeCalls adapters query region names),
      errs @ failureEntries adapters query region names)"
proof (induction names arbitrary: acc errs)
  case Nil
  show ?case by (simp add: mergeCalls_def failureEntries_def)
next
  case (Cons name rest)
  show ?case
  proof (cases "adapters name query region")
    case (Inl error)
    then show ?thesis using Cons [of acc "errs @ [name @ '': '' @ errorMessage error]"]
      by (simp add: mergeCalls_def failureEntries_def)
  next
    case (Inr found)
    then show ?thesis using Cons [of "mergeResults newURL acc found name" errs]
      by (simp add: mergeCalls_def failureEntries_def mergeAll_append mergeResults_mergeAll)
  qed
qed

lemma firstNonEmpty_snoc:
  "firstNonEmpty (xs @ [x]) = (if firstNonEmpty xs = [] then x else firstNonEmpty xs)"
  by (induction xs) (auto simp: firstNonEmpty_def split: list.splits)

lemma firstNonEmpty_single: "firstNonEmpty [x] = x"
  by (simp add: firstNonEmpty_def)

lemma callsFor_snoc:
  "callsFor newURL k (calls @ [c]) =
     (if keyOf newURL (snd c) = Some k then callsFor newURL k calls @ [c]
      else callsFor newURL k calls)"
  by (simp add: callsFor_def)

lemma mergeAll_snoc:
  "mergeAll newURL acc (calls @ [(n, r)]) = mergeResult newURL (mergeAll newURL acc calls) r n"
  by (simp add: mergeAll_append)

lemma recordOK_other:
  "keyOf newURL r \<noteq> Some k \<Longrightarrow>
   recordOK newURL (calls @ [(n, r)]) k e = recordOK newURL calls k e"
  by (simp add: recordOK_def callsFor_snoc)

lemma recordOK_new:
  "keyOf newURL r = Some k \<Longrightarrow> callsFor newURL k calls = [] \<Longrightarrow>
   recordOK newURL (calls @ [(n, r)]) k
     \<lparr>title = SearchResult.title r, url = h, snippet = SearchResult.snippet r, sources = [n]\<rparr>"
  by (simp add: recordOK_def callsFor_snoc firstNonEmpty_single)

lemma recordOK_existing:
  "keyOf newURL r = Some k \<Longrightarrow> recordOK newURL calls k e \<Longrightarrow>
   recordOK newURL (calls @ [(n, r)]) k
     \<lparr>title = (if AggregatedResult.title e = [] then SearchResult.title r
               else AggregatedResult.title e),
      url = AggregatedResult.url e,
      snippet = (if AggregatedResult.snippet e = [] then SearchResult.snippet r
                 else AggregatedResult.snippet e),
      sources = (if n \<in> set (sources e) then sources e else sources e @ [n])\<rparr>"
  by (auto simp add: recordOK_def callsFor_snoc firstNonEmpty_snoc)

lemma mergeAll_invariant:
  "distinct (map fst (mergeAll newURL [] calls)) \<and>
   (\<forall>k. case map_of (mergeAll newURL [] calls) k of
           None \<Rightarrow> callsFor newURL k calls = []
         | Some e \<Rightarrow> recordOK newURL calls k e)"
proof (induction calls rule: rev_induct)
  case Nil
  show ?case by (simp add: callsFor_def)
next
  case (snoc c calls)
  obtain n r where c: "c = (n, r)" by (cases c)
  let ?acc = "mergeAll newURL [] calls"
  from snoc have d: "distinct (map fst ?acc)"
    and inv: "\<And>k. case map_of ?acc k of
           None \<Rightarrow> callsFor newURL k calls = []
         | Some e \<Rightarrow> recordOK newURL calls k e"
    by blast+
  show ?case
  proof (cases "sanitizeUrl newURL (SearchResult.url r)")
    case None
    then have k: "\<And>k. keyOf newURL r \<noteq> Some k" by (simp add: keyOf_def)
    have m: "mergeAll newURL [] (calls @ [c]) = ?acc"
      by (simp add: c mergeAll_snoc mergeResult_rejected None)
    have "case map_of ?acc k of
           None \<Rightarrow> callsFor newURL k (calls @ [c]) = []
         | Some e \<Rightarrow> recordOK newURL (calls @ [c]) k e" for k
      using inv [of k] k [of k]
      by (simp add: c callsFor_snoc recordOK_other split: option.splits)
    then show ?thesis using d by (simp add: m)
  next
    case (Some z)
    then have kz: "keyOf newURL r = Some (key z)" by (simp add: keyOf_def)
    show ?thesis
    proof (cases "map_of ?acc (key z)")
      case None
      let ?v = "\<lparr>title = SearchResult.title r, url = href z,
                 snippet = SearchResult.snippet r, sources = [n]\<rparr>"
      have m: "mergeAll newURL [] (calls @ [c]) = AList.update (key z) ?v ?acc"
        by (simp add: c mergeAll_snoc mergeResult_new [OF Some None])
      from inv [of "key z"] None have e: "callsFor newURL (key z) calls = []" by simp
      have "case map_of (AList.update (key z) ?v ?acc) k of
           None \<Rightarrow> callsFor newURL k (calls @ [c]) = []
         | Some e \<Rightarrow> recordOK newURL (calls @ [c]) k e" for k
      proof (cases "k = key z")
        case True
        then show ?thesis using recordOK_new [OF kz e, of n "href z"]
          by (simp add: update_conv' c)
      next
        case False
        then have "keyOf newURL r \<noteq> Some k" using kz by simp
        then show ?thesis using inv [of k] False
          by (simp add: update_conv' c callsFor_snoc recordOK_other split: option.splits)
      qed
      then show ?thesis using d by (simp add: m distinct_update)
    next
      case (Some e)
      let ?v = "\<lparr>title = (if AggregatedResult.title e = [] then SearchResult.title r
                 else AggregatedResult.title e),
        url = AggregatedResult.url e,
        snippet = (if AggregatedResult.snippet e = [] then SearchResult.snippet r
                   else AggregatedResult.snippet e),
        sources = (if n \<in> set (sources e) then sources e else sources e @ [n])\<rparr>"
      have m: "mergeAll newURL [] (calls @ [c]) = AList.update (key z) ?v ?acc"
        by (simp add: c mergeAll_snoc mergeResult_existing [OF \<open>sanitizeUrl newURL (SearchResult.url r) = Some z\<close> Some])
      from inv [of "key z"] Some have e: "recordOK newURL calls (key z) e" by simp
      have "case map_of (AList.update (key z) ?v ?acc) k of
           None \<Rightarrow> callsFor newURL k (calls @ [c]) = []
         | Some e \<Rightarrow> recordOK newURL (calls @ [c]) k e" for k
      proof (cases "k = key z")
        case True
        then show ?thesis using recordOK_existing [OF kz e, of n]
          by (simp add: update_conv' c)
      next
        case False
        then have "keyOf newURL r \<noteq> Some k" using kz by simp
        then show ?thesis using inv [of k] False
          by (simp add: update_conv' c callsFor_snoc recordOK_other split: option.splits)
      qed
      then show ?thesis using d by (simp add: m distinct_update)
    qed
  qed
qed

lemma callsFor_append:
  "callsFor newURL k (xs @ ys) = callsFor newURL k xs @ callsFor newURL k ys"
  by (simp add: callsFor_def)

lemma firstNonEmpty_append:
  "firstNonEmpty xs \<noteq> [] \<Longrightarrow> firstNonEmpty (xs @ ys) = firstNonEmpty xs"
  by (induction xs) (auto simp: firstNonEmpty_def)

lemma distinct_count_one: "distinct xs \<Longrightarrow> x \<in> set xs \<Longrightarrow> count_list xs x = 1"
  by (induction xs) (auto simp: count_list_0_iff)

lemma mergeAll_keys_distinct: "distinct (map fst (mergeAll newURL [] calls))"
  using mergeAll_invariant [of newURL calls] by (rule conjunct1)

lemma mergeAll_lookup:
  "case map_of (mergeAll newURL [] calls) k of
     None \<Rightarrow> callsFor newURL k calls = []
   | Some e \<Rightarrow> recordOK newURL calls k e"
  using mergeAll_invariant [of newURL calls] by (elim conjE allE)

lemma mergeAll_lookup_Some:
  "map_of (mergeAll newURL [] calls) k = Some e \<Longrightarrow> recordOK newURL calls k e"
  using mergeAll_lookup [where newURL = newURL and calls = calls and k = k] by simp

lemma mergeAll_lookup_None:
  "map_of (mergeAll newURL [] calls) k = None \<Longrightarrow> callsFor newURL k calls = []"
  using mergeAll_lookup [where newURL = newURL and calls = calls and k = k] by simp

lemma stored_record:
  assumes "(name, result) \<in> set calls" "keyOf newURL result = Some k"
  shows "\<exists>e. map_of (mergeAll newURL [] calls) k = Some e \<and> recordOK newURL calls k e"
proof -
  from assms have "(name, result) \<in> set (callsFor newURL k calls)" by (simp add: callsFor_def)
  then have "callsFor newURL k calls \<noteq> []" by auto
  then show ?thesis
    using mergeAll_lookup_None [of newURL calls k] mergeAll_lookup_Some [of newURL calls k]
    by (cases "map_of (mergeAll newURL [] calls) k") simp_all
qed

lemma one_entry:
  assumes "distinct (map fst al)" "map_of al k = Some v"
  shows "length (filter (\<lambda>entry. fst entry = k) al) = 1"
  using assms
proof (induction al)
  case Nil then show ?case by simp
next
  case (Cons p al)
  show ?case
  proof (cases "fst p = k")
    case True
    with Cons.prems have "k \<notin> fst ` set al" by auto
    then have "filter (\<lambda>entry. fst entry = k) al = []" by (auto simp: filter_empty_conv)
    with True show ?thesis by simp
  next
    case False
    with Cons show ?thesis by (cases p) auto
  qed
qed

text \<open>
  C4. Let two results from adapters with distinct names be merged, in any list of calls
  of \<open>mergeResult\<close> that starts from the empty map, and let their URLs have the same
  dedup key. Then the map holds exactly one record under this key; its sources contain
  each of the two names exactly once; its title is the first non-empty title among the
  calls with this key, in the order of the calls, and likewise its snippet, each field
  on its own; and once a title or snippet is non-empty no later call changes it.
\<close>

theorem mergeResult_dedup:
  assumes "(name1, result1) \<in> set calls" and "(name2, result2) \<in> set calls"
    and "name1 \<noteq> name2"
    and "sanitizeUrl newURL (SearchResult.url result1) = Some s1"
    and "sanitizeUrl newURL (SearchResult.url result2) = Some s2"
    and "key s1 = key s2"
  shows "\<exists>e. map_of (mergeAll newURL [] calls) (key s1) = Some e \<and>
      length (filter (\<lambda>entry. fst entry = key s1) (mergeAll newURL [] calls)) = 1 \<and>
      count_list (sources e) name1 = 1 \<and> count_list (sources e) name2 = 1 \<and>
      AggregatedResult.title e =
        firstNonEmpty (map (\<lambda>call. SearchResult.title (snd call)) (callsFor newURL (key s1) calls)) \<and>
      AggregatedResult.snippet e =
        firstNonEmpty (map (\<lambda>call. SearchResult.snippet (snd call)) (callsFor newURL (key s1) calls)) \<and>
      (\<forall>later e'. map_of (mergeAll newURL [] (calls @ later)) (key s1) = Some e' \<longrightarrow>
         (AggregatedResult.title e \<noteq> [] \<longrightarrow> AggregatedResult.title e' = AggregatedResult.title e) \<and>
         (AggregatedResult.snippet e \<noteq> [] \<longrightarrow>
            AggregatedResult.snippet e' = AggregatedResult.snippet e))"
proof -
  let ?k = "key s1"
  have k1: "keyOf newURL result1 = Some ?k" and k2: "keyOf newURL result2 = Some ?k"
    using assms by (simp_all add: keyOf_def)
  from stored_record [OF assms(1) k1] obtain e
    where e: "map_of (mergeAll newURL [] calls) ?k = Some e" and ok: "recordOK newURL calls ?k e"
    by blast
  have d: "distinct (map fst (mergeAll newURL [] calls))"
    by (rule mergeAll_keys_distinct)
  have one: "length (filter (\<lambda>entry. fst entry = ?k) (mergeAll newURL [] calls)) = 1"
    using one_entry [OF d e] .
  have "(name1, result1) \<in> set (callsFor newURL ?k calls)"
    "(name2, result2) \<in> set (callsFor newURL ?k calls)"
    using assms(1,2) k1 k2 by (simp_all add: callsFor_def)
  then have "name1 \<in> fst ` set (callsFor newURL ?k calls)"
    "name2 \<in> fst ` set (callsFor newURL ?k calls)" by force+
  with ok have c: "count_list (sources e) name1 = 1" "count_list (sources e) name2 = 1"
    by (simp_all add: recordOK_def distinct_count_one)
  have later: "(AggregatedResult.title e \<noteq> [] \<longrightarrow> AggregatedResult.title e' = AggregatedResult.title e) \<and>
         (AggregatedResult.snippet e \<noteq> [] \<longrightarrow>
            AggregatedResult.snippet e' = AggregatedResult.snippet e)"
    if l: "map_of (mergeAll newURL [] (calls @ later)) ?k = Some e'" for later e'
  proof -
    from l have "recordOK newURL (calls @ later) ?k e'"
      by (rule mergeAll_lookup_Some)
    with ok show ?thesis
      by (auto simp: recordOK_def callsFor_append firstNonEmpty_append)
  qed
  from e one c ok later show ?thesis unfolding recordOK_def by blast
qed

theorem mergeResult_dedup_witness:
  "(''Brave'', resultA) \<in> set exampleCalls \<and> (''Yahoo'', resultB) \<in> set exampleCalls \<and>
   ''Brave'' \<noteq> ''Yahoo'' \<and>
   keyOf exampleURL resultA = Some ''https://example.com/docs'' \<and>
   keyOf exampleURL resultB = Some ''https://example.com/docs'' \<and>
   mergeAll exampleURL [] exampleCalls =
     [(''https://example.com/docs'',
       \<lparr>title = ''T'', url = ''https://example.com/Docs'', snippet = ''x'',
        sources = [''Brave'', ''Yahoo'']\<rparr>)] \<and>
   (\<exists>e. map_of (mergeAll exampleURL [] exampleCalls) ''https://example.com/docs'' = Some e \<and>
        count_list (sources e) ''Brave'' = 1 \<and> count_list (sources e) ''Yahoo'' = 1)"
proof -
  have m: "(''Brave'', resultA) \<in> set exampleCalls" "(''Yahoo'', resultB) \<in> set exampleCalls"
    by (simp_all add: exampleCalls_def)
  have n: "''Brave'' \<noteq> ''Yahoo''" by simp
  have sA: "sanitizeUrl exampleURL (SearchResult.url resultA) =
      Some \<lparr>key = ''https://example.com/docs'', href = ''https://example.com/Docs''\<rparr>"
    by code_simp
  have sB: "sanitizeUrl exampleURL (SearchResult.url resultB) =
      Some \<lparr>key = ''https://example.com/docs'', href = ''https://example.com/docs''\<rparr>"
    by code_simp
  have k: "keyOf exampleURL resultA = Some ''https://example.com/docs''"
    "keyOf exampleURL resultB = Some ''https://example.com/docs''"
    by (simp_all add: keyOf_def sA sB)
  have v: "mergeAll exampleURL [] exampleCalls =
     [(''https://example.com/docs'',
       \<lparr>title = ''T'', url = ''https://example.com/Docs'', snippet = ''x'',
        sources = [''Brave'', ''Yahoo'']\<rparr>)]"
    by code_simp
  from mergeResult_dedup [OF m n sA sB]
  have "\<exists>e. map_of (mergeAll exampleURL [] exampleCalls) ''https://example.com/docs'' = Some e \<and>
        count_list (sources e) ''Brave'' = 1 \<and> count_list (sources e) ''Yahoo'' = 1"
    by auto
  with m n k v show ?thesis by blast
qed

lemma failureEntries_length:
  "length (failureEntries adapters query region names) =
     length (filter (\<lambda>name. isl (adapters name query region)) names)"
  by (induction names) (auto simp: failureEntries_def split: sum.splits)

lemma failureEntries_member:
  "name \<in> set names \<Longrightarrow> adapters name query region = Inl error \<Longrightarrow>
   name @ '': '' @ errorMessage error \<in> set (failureEntries adapters query region names)"
  by (force simp: failureEntries_def)

lemma mergeCalls_member:
  "name \<in> set names \<Longrightarrow> adapters name query region = Inr found \<Longrightarrow>
   set (map (Pair name) found) \<subseteq> set (mergeCalls adapters query region names)"
  by (force simp: mergeCalls_def)

lemma mergeCalls_all_fail:
  "\<forall>name\<in>set names. isl (adapters name query region) \<Longrightarrow>
   mergeCalls adapters query region names = []"
  by (induction names) (auto simp: mergeCalls_def split: sum.splits)

lemma searchAllEngines_eq:
  "searchAllEngines newURL adapters query region =
     \<lparr>results = map snd (mergeAll newURL [] (mergeCalls adapters query region engines)),
      engineErrors = failureEntries adapters query region engines\<rparr>"
  by (simp add: searchAllEngines_def searchLoop_mergeAll)

lemma engines_nonempty: "engines \<noteq> []" "length engines = 7"
  by (simp_all add: engines_def)

text \<open>
  C7. \<open>searchAllEngines\<close> has a result for every behaviour of the adapters (a thrown
  value is consumed by the \<open>catch\<close> of its adapter). The error list has one entry for
  each failing adapter, in registration order, made of the adapter's name, a colon and
  a space, and the message; the results are the merge of everything that the adapters
  that did not fail returned; and when every adapter fails the result list is empty
  and the error list has seven entries.
\<close>

theorem searchAllEngines_isolates_failures:
  "engineErrors (searchAllEngines newURL adapters query region) =
     failureEntries adapters query region engines \<and>
   length (engineErrors (searchAllEngines newURL adapters query region)) =
     length (filter (\<lambda>name. isl (adapters name query region)) engines) \<and>
   (\<forall>name error. name \<in> set engines \<and> adapters name query region = Inl error \<longrightarrow>
      name @ '': '' @ errorMessage error \<in>
        set (engineErrors (searchAllEngines newURL adapters query region))) \<and>
   results (searchAllEngines newURL adapters query region) =
     map snd (mergeAll newURL [] (mergeCalls adapters query region engines)) \<and>
   (\<forall>name found. name \<in> set engines \<and> adapters name query region = Inr found \<longrightarrow>
      set (map (Pair name) found) \<subseteq> set (mergeCalls adapters query region engines)) \<and>
   ((\<forall>name\<in>set engines. isl (adapters name query region)) \<longrightarrow>
      results (searchAllEngines newURL adapters query region) = [] \<and>
      length (engineErrors (searchAllEngines newURL adapters query region)) = 7)"
proof (intro conjI allI impI)
  show "engineErrors (searchAllEngines newURL adapters query region) =
     failureEntries adapters query region engines"
    by (simp add: searchAllEngines_eq)
  show "length (engineErrors (searchAllEngines newURL adapters query region)) =
     length (filter (\<lambda>name. isl (adapters name query region)) engines)"
    by (simp add: searchAllEngines_eq failureEntries_length)
  show "results (searchAllEngines newURL adapters query region) =
     map snd (mergeAll newURL [] (mergeCalls adapters query region engines))"
    by (simp add: searchAllEngines_eq)
next
  fix name error
  assume "name \<in> set engines \<and> adapters name query region = Inl error"
  then show "name @ '': '' @ errorMessage error \<in>
        set (engineErrors (searchAllEngines newURL adapters query region))"
    using failureEntries_member [of name engines adapters query region error]
    by (simp add: searchAllEngines_eq)
next
  fix name found
  assume "name \<in> set engines \<and> adapters name query region = Inr found"
  then show "set (map (Pair name) found) \<subseteq> set (mergeCalls adapters query region engines)"
    using mergeCalls_member [of name engines adapters query region found] by simp
next
  assume a: "\<forall>name\<in>set engines. isl (adapters name query region)"
  then show "results (searchAllEngines newURL adapters query region) = []"
    by (simp add: searchAllEngines_eq mergeCalls_all_fail)
  from a have "filter (\<lambda>name. isl (adapters name query region)) engines = engines"
    by (simp add: filter_id_conv)
  then show "length (engineErrors (searchAllEngines newURL adapters query region)) = 7"
    by (simp add: searchAllEngines_eq failureEntries_length engines_nonempty)
qed

theorem searchAllEngines_isolates_failures_witness:
  "searchAllEngines exampleURL exampleAdapters ''q'' None =
     \<lparr>results =
        [\<lparr>title = ''T'', url = ''https://example.com/Docs'', snippet = ''x'',
          sources = [''Brave'', ''Yahoo'']\<rparr>,
         \<lparr>title = ''U'', url = ''http://example.org/a?q=1'', snippet = [],
          sources = [''Yahoo'']\<rparr>],
      engineErrors =
        [''AOL: timeout'', ''Bing: socket hang up'', ''DuckDuckGo: timeout'',
         ''Startpage: timeout'', ''Yandex: timeout'']\<rparr> \<and>
   results (searchAllEngines exampleURL failingAdapters ''q'' None) = [] \<and>
   length (engineErrors (searchAllEngines exampleURL failingAdapters ''q'' None)) = 7"
proof -
  have v: "searchAllEngines exampleURL exampleAdapters ''q'' None =
     \<lparr>results =
        [\<lparr>title = ''T'', url = ''https://example.com/Docs'', snippet = ''x'',
          sources = [''Brave'', ''Yahoo'']\<rparr>,
         \<lparr>title = ''U'', url = ''http://example.org/a?q=1'', snippet = [],
          sources = [''Yahoo'']\<rparr>],
      engineErrors =
        [''AOL: timeout'', ''Bing: socket hang up'', ''DuckDuckGo: timeout'',
         ''Startpage: timeout'', ''Yandex: timeout'']\<rparr>"
    by code_simp
  have f: "\<forall>name\<in>set engines. isl (failingAdapters name ''q'' None)"
    by (simp add: failingAdapters_def)
  from searchAllEngines_isolates_failures [of exampleURL failingAdapters "''q''" None] f
  have "results (searchAllEngines exampleURL failingAdapters ''q'' None) = [] \<and>
     length (engineErrors (searchAllEngines exampleURL failingAdapters ''q'' None)) = 7"
    by blast
  with v show ?thesis by blast
qed

subsection \<open>Order of the adapters\<close>

lemma mergeCalls_append:
  "mergeCalls adapters query region (xs @ ys) =
     mergeCalls adapters query region xs @ mergeCalls adapters query region ys"
  by (simp add: mergeCalls_def)

lemma mergeCalls_cong:
  "\<forall>name\<in>set names. adapters' name query' region' = adapters name query region \<Longrightarrow>
   mergeCalls adapters' query' region' names = mergeCalls adapters query region names"
  unfolding mergeCalls_def by (intro arg_cong [where f = concat] map_cong) auto

lemma failureEntries_cong:
  "\<forall>name\<in>set names. adapters' name query' region' = adapters name query region \<Longrightarrow>
   failureEntries adapters' query' region' names = failureEntries adapters query region names"
  unfolding failureEntries_def by (intro arg_cong [where f = concat] map_cong) auto

lemma results_record:
  assumes "e \<in> set (map snd (mergeAll newURL [] calls))"
  shows "\<exists>k. recordOK newURL calls k e"
proof -
  from assms obtain k where "(k, e) \<in> set (mergeAll newURL [] calls)" by auto
  then have "map_of (mergeAll newURL [] calls) k = Some e"
    using mergeAll_keys_distinct [of newURL calls] by simp
  then show ?thesis using mergeAll_lookup_Some by blast
qed

text \<open>
  C10. The adapters are queried in the registration order AOL, Brave, Bing, DuckDuckGo,
  Yahoo, Startpage, Yandex, each after the previous one has settled, so that the calls
  of \<open>mergeResult\<close> are those for AOL's results, then Brave's, and so on. Two runs in which
  each adapter gives the same output return the same value. In each record the title
  and the snippet are the first non-empty ones in this order among the results with the
  record's key, and the sources are the adapters that returned such a result.
\<close>

theorem searchAllEngines_registration_order:
  "engines = [''AOL'', ''Brave'', ''Bing'', ''DuckDuckGo'', ''Yahoo'', ''Startpage'', ''Yandex''] \<and>
   mergeCalls adapters query region engines =
     mergeCalls adapters query region [''AOL''] @ mergeCalls adapters query region [''Brave''] @
     mergeCalls adapters query region [''Bing''] @
     mergeCalls adapters query region [''DuckDuckGo''] @
     mergeCalls adapters query region [''Yahoo''] @
     mergeCalls adapters query region [''Startpage''] @
     mergeCalls adapters query region [''Yandex''] \<and>
   results (searchAllEngines newURL adapters query region) =
     map snd (mergeAll newURL [] (mergeCalls adapters query region engines)) \<and>
   (\<forall>adapters' query' region'.
      (\<forall>name\<in>set engines. adapters' name query' region' = adapters name query region) \<longrightarrow>
      searchAllEngines newURL adapters' query' region' =
        searchAllEngines newURL adapters query region) \<and>
   (\<forall>e\<in>set (results (searchAllEngines newURL adapters query region)).
      \<exists>k. callsFor newURL k (mergeCalls adapters query region engines) \<noteq> [] \<and>
          AggregatedResult.title e =
            firstNonEmpty (map (\<lambda>call. SearchResult.title (snd call))
              (callsFor newURL k (mergeCalls adapters query region engines))) \<and>
          AggregatedResult.snippet e =
            firstNonEmpty (map (\<lambda>call. SearchResult.snippet (snd call))
              (callsFor newURL k (mergeCalls adapters query region engines))) \<and>
          distinct (sources e) \<and>
          set (sources e) = fst ` set (callsFor newURL k (mergeCalls adapters query region engines)))"
proof (intro conjI allI impI ballI)
  show "engines = [''AOL'', ''Brave'', ''Bing'', ''DuckDuckGo'', ''Yahoo'', ''Startpage'', ''Yandex'']"
    by (simp add: engines_def)
  show "mergeCalls adapters query region engines =
     mergeCalls adapters query region [''AOL''] @ mergeCalls adapters query region [''Brave''] @
     mergeCalls adapters query region [''Bing''] @
     mergeCalls adapters query region [''DuckDuckGo''] @
     mergeCalls adapters query region [''Yahoo''] @
     mergeCalls adapters query region [''Startpage''] @
     mergeCalls adapters query region [''Yandex'']"
    by (simp add: engines_def mergeCalls_def)
  show "results (searchAllEngines newURL adapters query region) =
     map snd (mergeAll newURL [] (mergeCalls adapters query region engines))"
    by (simp add: searchAllEngines_eq)
next
  fix adapters' :: "string \<Rightarrow> ISearchEngine" and query' :: string and region' :: "string option"
  assume a: "\<forall>name\<in>set engines. adapters' name query' region' = adapters name query region"
  have "mergeCalls adapters' query' region' engines = mergeCalls adapters query region engines"
    using a by (rule mergeCalls_cong)
  moreover
  have "failureEntries adapters' query' region' engines =
      failureEntries adapters query region engines"
    using a by (rule failureEntries_cong)
  ultimately show "searchAllEngines newURL adapters' query' region' =
        searchAllEngines newURL adapters query region"
    by (simp add: searchAllEngines_eq)
next
  fix e
  assume "e \<in> set (results (searchAllEngines newURL adapters query region))"
  then have "e \<in> set (map snd (mergeAll newURL [] (mergeCalls adapters query region engines)))"
    by (simp add: searchAllEngines_eq)
  from results_record [OF this]
  show "\<exists>k. callsFor newURL k (mergeCalls adapters query region engines) \<noteq> [] \<and>
          AggregatedResult.title e =
            firstNonEmpty (map (\<lambda>call. SearchResult.title (snd call))
              (callsFor newURL k (mergeCalls adapters query region engines))) \<and>
          AggregatedResult.snippet e =
            firstNonEmpty (map (\<lambda>call. SearchResult.snippet (snd call))
              (callsFor newURL k (mergeCalls adapters query region engines))) \<and>
          distinct (sources e) \<and>
          set (sources e) = fst ` set (callsFor newURL k (mergeCalls adapters query region engines))"
    unfolding recordOK_def by blast
qed

theorem searchAllEngines_registration_order_witness:
  "searchAllEngines exampleURL rivalAdapters ''other'' (Some ''us'') =
     searchAllEngines exampleURL rivalAdapters ''q'' None \<and>
   searchAllEngines exampleURL rivalAdapters ''q'' None =
     \<lparr>results =
        [\<lparr>title = ''Docs (Brave)'', url = ''https://example.com/Docs'', snippet = ''y'',
          sources = [''Brave'', ''Yahoo'']\<rparr>],
      engineErrors = []\<rparr>"
proof -
  have h: "\<forall>name\<in>set engines. rivalAdapters name ''other'' (Some ''us'') = rivalAdapters name ''q'' None"
    by (simp add: rivalAdapters_def)
  have v: "searchAllEngines exampleURL rivalAdapters ''q'' None =
     \<lparr>results =
        [\<lparr>title = ''Docs (Brave)'', url = ''https://example.com/Docs'', snippet = ''y'',
          sources = [''Brave'', ''Yahoo'']\<rparr>],
      engineErrors = []\<rparr>"
    by code_simp
  from searchAllEngines_registration_order [of rivalAdapters "''q''" None exampleURL] h
  have "searchAllEngines exampleURL rivalAdapters ''other'' (Some ''us'') =
     searchAllEngines exampleURL rivalAdapters ''q'' None"
    by blast
  with v show ?thesis by blast
qed

subsection \<open>Render retries\<close>









subsection \<open>Pool bound\<close>

text \<open>
  C1 does not hold of the code. When four callers call \<open>acquire\<close> on an empty pool of
  capacity 3 before any launch has resolved, each call finds the pool empty, so four
  browsers are launched and pushed: the pool holds four handles, and the fourth caller
  has its handle without any \<open>release\<close>.
\<close>

theorem acquire_overlapping_launches:
  "maxSize (thePool (runEvents (newPool 3 60000) fourAtOnce)) = 3 \<and>
   length (pool (thePool (runEvents (newPool 3 60000) fourAtOnce))) = 4 \<and>
   launches (runEvents (newPool 3 60000) fourAtOnce) = 4 \<and>
   callers (runEvents (newPool 3 60000) fourAtOnce) 3 = Resolved 103 \<and>
   map browser (pool (thePool (runEvents (newPool 3 60000) fourAtOnce))) = [100, 101, 102, 103]"
  by (simp add: runEvents_def fourAtOnce_def newPool_def acquireStart_def acquireLaunched_def)

text \<open>
  The bound is kept as long as no call of \<open>acquire\<close> is made while a launch is pending,
  and then the fourth caller waits until a handle is released.
\<close>

lemma takeAvailable_length:
  "takeAvailable now xs = Some (handle, marked) \<Longrightarrow> length marked = length xs"
  by (induction xs arbitrary: marked) (auto split: if_splits option.splits)

lemma acquireStart_pool_length:
  "acquireStart now p = (state, p') \<Longrightarrow>
   length (pool p') = length (pool p) \<and> maxSize p' = maxSize p \<and>
   (state = Launching \<longrightarrow> length (pool p) < maxSize p)"
  by (auto simp: acquireStart_def takeAvailable_length split: option.splits if_splits)

lemma pool_bound_without_pending_launch:
  assumes "length (pool (thePool w)) \<le> maxSize (thePool w)"
    and "\<forall>other. callers w other \<noteq> Launching"
  shows "length (pool (thePool (step (step w (Acquire caller now)) (LaunchResolves caller handle later))))
           \<le> maxSize (thePool (step (step w (Acquire caller now)) (LaunchResolves caller handle later)))"
proof (cases "callers w caller = NotCalled")
  case False
  with assms show ?thesis by simp
next
  case True
  obtain state p where a: "acquireStart now (thePool w) = (state, p)"
    by (cases "acquireStart now (thePool w)")
  from acquireStart_pool_length [OF a] assms(1) True a show ?thesis
    by (auto simp: acquireLaunched_def)
qed

lemma acquire_one_by_one:
  "length (pool (thePool (runEvents (newPool 3 60000) (take 8 oneByOne)))) = 3 \<and>
   launches (runEvents (newPool 3 60000) (take 8 oneByOne)) = 3 \<and>
   callers (runEvents (newPool 3 60000) (take 8 oneByOne)) 3 = Waiting \<and>
   callers (runEvents (newPool 3 60000) oneByOne) 3 = Resolved 101 \<and>
   length (pool (thePool (runEvents (newPool 3 60000) oneByOne))) = 3"
  by (simp add: runEvents_def oneByOne_def newPool_def acquireStart_def acquireLaunched_def
        acquirePoll_def release_def)

end
